theory Spec2Isabelle
  imports Main
begin

section \<open>Python values shared by both modules\<close>

text \<open>
  The exceptions the modelled code can reach. Reading \<open>xs[i]\<close> or calling \<open>xs.pop(i)\<close>
  out of range raises \<open>IndexError\<close>; reading an attribute of \<open>None\<close> (or an attribute
  an object does not have) raises \<open>AttributeError\<close>; \<open>run\<close> raises \<open>RuntimeError\<close>
  itself when Gtk cannot be initialised.
\<close>

datatype py_error = IndexError | AttributeError | RuntimeError

text \<open>\<open>xs[i]\<close> for a non-negative index.\<close>

definition item :: "'a list \<Rightarrow> nat \<Rightarrow> py_error + 'a" where
  "item xs i = (if i < length xs then Inr (xs ! i) else Inl IndexError)"

text \<open>\<open>xs.pop(i)\<close> for a non-negative index: the list without its entry at \<open>i\<close>.\<close>

definition pop :: "nat \<Rightarrow> 'a list \<Rightarrow> py_error + 'a list" where
  "pop i xs = (if i < length xs then Inr (take i xs @ drop (Suc i) xs) else Inl IndexError)"

text \<open>Reading through a reference that may be \<open>None\<close>.\<close>

definition deref :: "'a option \<Rightarrow> py_error + 'a" where
  "deref r = (case r of None \<Rightarrow> Inl AttributeError | Some x \<Rightarrow> Inr x)"


section \<open>The payloads service (\<open>pyanaconda/modules/payloads/payloads.py\<close>)\<close>

text \<open>
  Modelled from the spec: the enumeration \<open>PayloadType\<close> lives in
  \<open>pyanaconda.modules.payloads.constants\<close>, which is not among the sources. The service
  names one member, \<open>DNF\<close> (the package-based type); every other member is kept by its
  name.
\<close>

datatype PayloadType = DNF | Other_type string

text \<open>
  A payload module as the service sees it: its \<open>type\<close>, and the identity of the Python
  object (two payloads created for the same type are two objects).
\<close>

record payload =
  ident :: nat
  ptype :: PayloadType

text \<open>
  What the service does to the outside, in the order it does it: the signals it emits and
  the calls it forwards into a payload module. \<open>'d\<close> is the kickstart data.
\<close>

datatype 'd emission =
    Created_payloads_changed payload
  | Active_payload_changed
  | Payload_process_kickstart payload 'd
  | Payload_setup_kickstart payload 'd

text \<open>
  The attributes of \<open>PayloadsService\<close>. \<open>constructed\<close> counts the payload objects the
  factory has built so far and gives the next one its identity.
\<close>

record 'd service =
  created_payloads :: "payload list"
  active_payload :: "payload option"
  emitted :: "'d emission list"
  constructed :: nat

text \<open>\<open>__init__\<close>: an empty list and no active payload.\<close>

definition init_service :: "'d service" where
  "init_service =
     \<lparr>created_payloads = [], active_payload = None, emitted = [], constructed = 0\<rparr>"

text \<open>
  Modelled from the spec: \<open>PayloadFactory.create_payload\<close> (in
  \<open>pyanaconda.modules.payloads.payload.factory\<close>, not among the sources) "constructs a new
  payload descriptor" of the type it is given.
\<close>

definition PayloadFactory_create_payload :: "PayloadType \<Rightarrow> nat \<Rightarrow> payload" where
  "PayloadFactory_create_payload payload_type n = \<lparr>ident = n, ptype = payload_type\<rparr>"

text \<open>\<open>_add_created_payload\<close>: append, then emit \<open>created_payloads_changed(module)\<close>.\<close>

definition add_created_payload :: "payload \<Rightarrow> 'd service \<Rightarrow> 'd service" where
  "add_created_payload module s =
     s\<lparr>created_payloads := created_payloads s @ [module],
       emitted := emitted s @ [Created_payloads_changed module]\<rparr>"

text \<open>\<open>create_payload\<close>: build the payload, register it, return it.\<close>

definition create_payload :: "PayloadType \<Rightarrow> 'd service \<Rightarrow> payload \<times> 'd service" where
  "create_payload payload_type s =
     (let payload = PayloadFactory_create_payload payload_type (constructed s)
      in (payload, add_created_payload payload (s\<lparr>constructed := Suc (constructed s)\<rparr>)))"

text \<open>\<open>activate_payload\<close>: set the active payload, then emit \<open>active_payload_changed\<close>.\<close>

definition activate_payload :: "payload \<Rightarrow> 'd service \<Rightarrow> 'd service" where
  "activate_payload p s =
     s\<lparr>active_payload := Some p, emitted := emitted s @ [Active_payload_changed]\<rparr>"

text \<open>
  \<open>process_kickstart\<close>. \<open>PayloadFactory.get_type_for_kickstart\<close> is not among the sources
  and is a parameter: it answers a payload type or \<open>None\<close>. The statements run in the
  source's order: create, forward the data into the new module, activate.
\<close>

definition process_kickstart ::
  "('d \<Rightarrow> PayloadType option) \<Rightarrow> 'd \<Rightarrow> 'd service \<Rightarrow> 'd service" where
  "process_kickstart get_type_for_kickstart data s =
     (case get_type_for_kickstart data of
        None \<Rightarrow> s
      | Some payload_type \<Rightarrow>
          (case create_payload payload_type s of
             (payload_module, s1) \<Rightarrow>
               activate_payload payload_module
                 (s1\<lparr>emitted := emitted s1 @ [Payload_process_kickstart payload_module data]\<rparr>)))"


text \<open>
  \<open>generate_kickstart\<close>. The inherited \<open>KickstartService.generate_kickstart\<close>
  (\<open>pyanaconda.modules.common.base\<close>, not among the sources) is the parameter
  \<open>super_generate_kickstart\<close>. Python's \<open>and\<close> reads \<open>.type\<close> only when the active payload
  is not \<open>None\<close>.
\<close>

definition generate_kickstart ::
  "('d service \<Rightarrow> string) \<Rightarrow> 'd service \<Rightarrow> py_error + string" where
  "generate_kickstart super_generate_kickstart s =
     (if active_payload s \<noteq> None then
        (case deref (active_payload s) of
           Inl e \<Rightarrow> Inl e
         | Inr p \<Rightarrow> if ptype p \<noteq> DNF then Inr '''' else Inr (super_generate_kickstart s))
      else Inr (super_generate_kickstart s))"

text \<open>A sequence of \<open>create_payload\<close> calls: the payloads returned, in call order, and the
  service afterwards.\<close>

fun create_payloads :: "PayloadType list \<Rightarrow> 'd service \<Rightarrow> payload list \<times> 'd service" where
  "create_payloads [] s = ([], s)"
| "create_payloads (t # ts) s =
     (case create_payload t s of
        (p, s1) \<Rightarrow> (case create_payloads ts s1 of (ps, s2) \<Rightarrow> (p # ps, s2)))"

text \<open>\<open>a\<close> occurs in \<open>xs\<close> and \<open>b\<close> occurs somewhere after that first occurrence.\<close>

definition precedes :: "'a \<Rightarrow> 'a \<Rightarrow> 'a list \<Rightarrow> bool" where
  "precedes a b xs = (b \<in> set (drop 1 (dropWhile (\<lambda>x. x \<noteq> a) xs)))"


text \<open>An example of the factory's decision: \<open>liveimg\<close> asks for the live-image payload,
  anything else for none.\<close>

definition live_ks :: "string \<Rightarrow> PayloadType option" where
  "live_ks data = (if data = ''liveimg'' then Some (Other_type ''LIVE_IMAGE'') else None)"

section \<open>The wizard sequencer (\<open>pyanaconda/ui/gui/__init__.py\<close>)\<close>

text \<open>
  \<open>GraphicalUserInterface._actions\<close> is a list of screen \<^emph>\<open>classes\<close>:
  \<open>_instantiateAction\<close> calls each entry to construct the screen object. The screen
  classes are defined outside this file, so a class is modelled by what the sequencer reads
  of it and of the object it constructs:
  \<^item> \<open>name\<close>: the class's own \<open>__name__\<close>;
  \<^item> \<open>metaclass_name\<close>: \<open>cls.__class__.__name__\<close> for the class object \<open>cls\<close>, that is
    the name of the class of the class (\<open>type\<close> for an ordinary Python class);
  \<^item> \<open>standalone\<close>: \<open>_is_standalone(obj)\<close>, whether the object is a \<open>StandaloneSpoke\<close>;
  \<^item> \<open>completed\<close>, \<open>showable\<close>, \<open>skipTo\<close>: the object's attributes of these names
    (\<open>skipTo\<close> is \<open>None\<close> or a string);
  \<^item> \<open>obj_may_continue\<close>: what \<open>obj.get_may_continue()\<close> answers when the screen object
    itself is asked (\<open>None\<close>: the object has no such method). \<open>GUIObject\<close> defines none.
\<close>

record action_class =
  name :: string
  metaclass_name :: string
  standalone :: bool
  completed :: bool
  showable :: bool
  skipTo :: "string option"
  obj_may_continue :: "bool option"

text \<open>A screen object: the instance of its class.\<close>

datatype action_obj = Instance (class_of: action_class)

text \<open>
  The first argument of a signal handler. Gtk passes the window that emitted the signal,
  of which the handler reads \<open>get_may_continue()\<close>; the handler's call of itself passes a
  screen object.
\<close>

datatype win = Window bool | Action_object action_obj

definition get_may_continue :: "win \<Rightarrow> py_error + bool" where
  "get_may_continue w =
     (case w of
        Window may \<Rightarrow> Inr may
      | Action_object obj \<Rightarrow>
          (case obj_may_continue (class_of obj) of
             None \<Rightarrow> Inl AttributeError
           | Some may \<Rightarrow> Inr may))"

text \<open>
  The sequencer's calls on screens and on the toolkit, in order. Styling calls
  (\<open>set_beta\<close>, the distribution text, fonts, the stylesheet, the logo), the cursor and the
  connection of signal handlers are left out.
\<close>

datatype gui_event =
    Construct action_class
  | Initialize action_obj
  | Entry_logger action_obj
  | Exit_logger action_obj
  | Refresh action_obj
  | Hide_window action_obj
  | Set_current_action action_obj
  | Gtk_main
  | Gtk_main_quit

text \<open>
  The state: \<open>_actions\<close>, \<open>_currentAction\<close>, the main window's \<open>_current_action\<close> (the
  screen it displays) and the calls made so far.
\<close>

record gui =
  actions :: "action_class list"
  currentAction :: "action_obj option"
  main_window_current :: "action_obj option"
  effects :: "gui_event list"

text \<open>How a call of \<open>run\<close> or of a signal handler ends.\<close>

datatype outcome =
    Returned       \<comment> \<open>\<open>run\<close>: the \<open>return\<close> inside the start loop\<close>
  | Main_loop      \<comment> \<open>\<open>run\<close>: the first screen is displayed and \<open>Gtk.main()\<close> is entered\<close>
  | Wait_for_meh   \<comment> \<open>\<open>run\<close>: a main loop is already running; wait for it, then \<open>sys.exit(0)\<close>\<close>
  | Ignored        \<comment> \<open>handler: \<open>return\<close> because the window may not continue\<close>
  | Main_quit      \<comment> \<open>handler: \<open>Gtk.main_quit()\<close> on the last screen\<close>
  | Sys_exit       \<comment> \<open>handler: \<open>sys.exit(0)\<close>\<close>
  | Advanced       \<comment> \<open>handler: the next screen is displayed\<close>
  | Raised py_error

text \<open>What \<open>run\<close> reads of the toolkit before it starts the sequencer.\<close>

record gtk =
  init_check :: bool
  main_level :: nat

text \<open>
  \<open>_instantiateAction\<close>: construct the screen; a standalone spoke that is already
  completed is deleted and \<open>None\<close> returned. The constructor of a screen class is taken to
  return its object, and a screen object is true in a condition (\<open>not obj\<close> is false), as
  for any Python object that defines no truth value of its own.
\<close>

definition instantiateAction :: "action_class \<Rightarrow> gui \<Rightarrow> action_obj option \<times> gui" where
  "instantiateAction actionClass s =
     (let obj = Instance actionClass;
          s1 = s\<lparr>effects := effects s @ [Construct actionClass]\<rparr>
      in if standalone (class_of obj) \<and> completed (class_of obj) then (None, s1)
         else (Some obj, s1))"

text \<open>
  The start loop of \<open>run\<close>:
  \<^verbatim>\<open>
  while not self._currentAction:
      self._currentAction = self._instantiateAction(self._actions[0])
      if not self._currentAction:
          self._actions.pop(0)
      if not self._actions:
          return
  \<close>
  \<open>Inl\<close> is a way out of \<open>run\<close>, \<open>Inr\<close> the state when the loop ends.
\<close>

function run_loop :: "gui \<Rightarrow> (outcome \<times> gui) + gui" where
  "run_loop s =
     (if currentAction s \<noteq> None then Inr s
      else
        (case item (actions s) 0 of
           Inl e \<Rightarrow> Inl (Raised e, s)
         | Inr actionClass \<Rightarrow>
             (case instantiateAction actionClass s of
                (cur, s1) \<Rightarrow>
                  (let s2 = s1\<lparr>currentAction := cur\<rparr> in
                   (case (if cur = None then pop 0 (actions s2) else Inr (actions s2)) of
                      Inl e \<Rightarrow> Inl (Raised e, s2)
                    | Inr acts \<Rightarrow>
                        (let s3 = s2\<lparr>actions := acts\<rparr> in
                         if actions s3 = [] then Inl (Returned, s3) else run_loop s3))))))"
  by pat_completeness auto
termination
proof (relation "measure (\<lambda>s. (if currentAction s = None then Suc (length (actions s)) else 0))")
  show "wf (measure (\<lambda>s. (if currentAction s = None then Suc (length (actions s)) else 0)))"
    by simp
next
  fix s :: gui and x2 x y s2 x2a s3
  assume "\<not> currentAction s \<noteq> None"
    and "item (actions s) 0 = Inr x2"
    and "(x, y) = instantiateAction x2 s"
    and "s2 = y\<lparr>currentAction := x\<rparr>"
    and "(if x = None then pop 0 (actions s2) else Inr (actions s2)) = Inr x2a"
    and "s3 = s2\<lparr>actions := x2a\<rparr>"
    and "actions s3 \<noteq> []"
  then show "(s3, s) \<in> measure (\<lambda>s. (if currentAction s = None then Suc (length (actions s)) else 0))"
    by (auto simp: instantiateAction_def Let_def pop_def item_def split: if_splits)
qed

declare run_loop.simps [simp del]

text \<open>
  \<open>run\<close>. It raises \<open>RuntimeError\<close> when \<open>Gtk.init_check\<close> fails, and waits for
  python-meh when a Gtk main loop is already running. Otherwise it runs the start loop,
  then \<open>initialize()\<close>, \<open>entry_logger()\<close>, \<open>refresh()\<close> on the current action,
  \<open>mainWindow.setCurrentAction\<close>, and \<open>Gtk.main()\<close>.
\<close>

definition run :: "gtk \<Rightarrow> gui \<Rightarrow> outcome \<times> gui" where
  "run g s =
     (if \<not> init_check g then (Raised RuntimeError, s)
      else if main_level g > 0 then (Wait_for_meh, s)
      else
        (case run_loop s of
           Inl r \<Rightarrow> r
         | Inr s1 \<Rightarrow>
             (case deref (currentAction s1) of
                Inl e \<Rightarrow> (Raised e, s1)
              | Inr cur \<Rightarrow>
                  (Main_loop,
                   s1\<lparr>main_window_current := Some cur,
                      effects := effects s1 @
                        [Initialize cur, Entry_logger cur, Refresh cur,
                         Set_current_action cur, Gtk_main]\<rparr>))))"

text \<open>Python's truth value of \<open>skipTo\<close>: \<open>None\<close> and the empty string are false.\<close>

definition truthy :: "string option \<Rightarrow> bool" where
  "truthy v = (case v of None \<Rightarrow> False | Some str \<Rightarrow> str \<noteq> [])"

text \<open>
  The scan for the skip-to target, from index \<open>ndx\<close> on:
  \<^verbatim>\<open>
  for ndx in range(1, len(self._actions)):
      if self._actions[ndx].__class__.__name__ == self._currentAction.skipTo:
          found = True
          break
  \<close>
  The entries of \<open>_actions\<close> are classes, so \<open>self._actions[ndx].__class__\<close> is the class
  of a class and the name compared is \<open>metaclass_name\<close>. \<open>Some ndx\<close> is \<open>found\<close> with the
  index the loop broke at.
\<close>

function find_ndx :: "string \<Rightarrow> action_class list \<Rightarrow> nat \<Rightarrow> nat option" where
  "find_ndx target acts ndx =
     (if ndx < length acts then
        (if metaclass_name (acts ! ndx) = target then Some ndx
         else find_ndx target acts (Suc ndx))
      else None)"
  by pat_completeness auto
termination
  by (relation "measure (\<lambda>(target, acts, ndx). length acts - ndx)") auto

declare find_ndx.simps [simp del]

text \<open>
  The skip-to block of \<open>_on_continue_clicked\<close>: when the current action's \<open>skipTo\<close> is
  true and the scan finds an index, \<open>self._actions = [self._actions[0]] + self._actions[ndx:]\<close>.
\<close>

definition skip_to :: "action_obj \<Rightarrow> action_class list \<Rightarrow> action_class list" where
  "skip_to cur acts =
     (if truthy (skipTo (class_of cur)) then
        (case find_ndx (the (skipTo (class_of cur))) acts 1 of
           None \<Rightarrow> acts
         | Some ndx \<Rightarrow> [acts ! 0] @ drop ndx acts)
      else acts)"

text \<open>
  The search for the next action in \<open>_on_continue_clicked\<close>:
  \<^verbatim>\<open>
  while not nextAction:
      nextAction = self._instantiateAction(self._actions[1])
      if not nextAction:
          self._actions.pop(1)
      if not self._actions:
          sys.exit(0)
          return
  \<close>
  \<open>Inl\<close> is a way out of the handler, \<open>Inr\<close> the next action and the state when the loop
  ends.
\<close>

function next_loop :: "gui \<Rightarrow> (outcome \<times> gui) + (action_obj \<times> gui)" where
  "next_loop s =
     (case item (actions s) 1 of
        Inl e \<Rightarrow> Inl (Raised e, s)
      | Inr actionClass \<Rightarrow>
          (case instantiateAction actionClass s of
             (Some nextAction, s1) \<Rightarrow>
               if actions s1 = [] then Inl (Sys_exit, s1) else Inr (nextAction, s1)
           | (None, s1) \<Rightarrow>
               (case pop 1 (actions s1) of
                  Inl e \<Rightarrow> Inl (Raised e, s1)
                | Inr acts \<Rightarrow>
                    (let s2 = s1\<lparr>actions := acts\<rparr> in
                     if actions s2 = [] then Inl (Sys_exit, s2) else next_loop s2))))"
  by pat_completeness auto
termination
  by (relation "measure (\<lambda>s. length (actions s))")
     (auto simp: instantiateAction_def Let_def pop_def item_def split: if_splits)

declare next_loop.simps [simp del]

text \<open>
  The body of \<open>_on_continue_clicked(win)\<close> up to its call of itself. \<open>Inl\<close> is the way the
  handler ends within this call; \<open>Inr (nextAction, s)\<close> stands at the statement
  \<open>self._on_continue_clicked(nextAction)\<close>, with the state \<open>s\<close> the call is made in.
\<close>

definition continue_clicked_body ::
  "win \<Rightarrow> gui \<Rightarrow> (outcome \<times> gui) + (action_obj \<times> gui)" where
  "continue_clicked_body w s =
     (case get_may_continue w of
        Inl e \<Rightarrow> Inl (Raised e, s)
      | Inr may \<Rightarrow>
          if \<not> may then Inl (Ignored, s)
          else if length (actions s) = 1 then
            Inl (Main_quit, s\<lparr>effects := effects s @ [Gtk_main_quit]\<rparr>)
          else
            (case deref (currentAction s) of
               Inl e \<Rightarrow> Inl (Raised e, s)
             | Inr cur \<Rightarrow>
                 (case next_loop (s\<lparr>actions := skip_to cur (actions s)\<rparr>) of
                    Inl r \<Rightarrow> Inl r
                  | Inr (nextAction, s2) \<Rightarrow>
                      (let s3 = s2\<lparr>effects := effects s2 @ [Initialize nextAction]\<rparr> in
                       if \<not> showable (class_of nextAction) then
                         (let s4 = s3\<lparr>effects := effects s3 @ [Hide_window cur]\<rparr> in
                          (case pop 0 (actions s4) of
                             Inl e \<Rightarrow> Inl (Raised e, s4)
                           | Inr acts \<Rightarrow> Inr (nextAction, s4\<lparr>actions := acts\<rparr>)))
                       else
                         (let s4 = s3\<lparr>effects := effects s3 @
                                     [Exit_logger cur, Entry_logger nextAction,
                                      Refresh nextAction, Set_current_action nextAction],
                                   main_window_current := Some nextAction,
                                   currentAction := Some nextAction\<rparr> in
                          (case pop 0 (actions s4) of
                             Inl e \<Rightarrow> Inl (Raised e, s4)
                           | Inr acts \<Rightarrow> Inl (Advanced, s4\<lparr>actions := acts\<rparr>)))))))"

text \<open>An action class whose instantiation is refused: a completed standalone spoke.\<close>

definition declines :: "action_class \<Rightarrow> bool" where
  "declines c = (standalone c \<and> completed c)"


text \<open>
  Examples. \<open>screen n\<close> is an ordinary screen class named \<open>n\<close>: a standalone spoke, not yet
  completed, showable, with no skip-to target, whose class is \<open>type\<close> and whose objects
  have no \<open>get_may_continue\<close> of their own. \<open>not_started acts\<close> is the interface after
  \<open>setup\<close>, \<open>showing a rest\<close> the interface displaying \<open>a\<close> with \<open>rest\<close> still to come,
  \<open>gtk_ready\<close> a toolkit that initialises and runs no main loop yet.
\<close>

definition screen :: "string \<Rightarrow> action_class" where
  "screen n =
     \<lparr>name = n, metaclass_name = ''type'', standalone = True, completed = False,
      showable = True, skipTo = None, obj_may_continue = None\<rparr>"

definition not_started :: "action_class list \<Rightarrow> gui" where
  "not_started acts =
     \<lparr>actions = acts, currentAction = None, main_window_current = None, effects = []\<rparr>"

definition showing :: "action_class \<Rightarrow> action_class list \<Rightarrow> gui" where
  "showing a rest =
     \<lparr>actions = a # rest, currentAction = Some (Instance a),
      main_window_current = Some (Instance a), effects = []\<rparr>"

definition gtk_ready :: gtk where
  "gtk_ready = \<lparr>init_check = True, main_level = 0\<rparr>"

text \<open>
  \<open>hidden n may\<close> is a screen class like \<open>screen n\<close> that is not showable and whose
  objects answer \<open>get_may_continue()\<close> with \<open>may\<close>; \<open>hidden n None\<close> is the ordinary
  case, a screen object with no such method.
\<close>

definition hidden :: "string \<Rightarrow> bool option \<Rightarrow> action_class" where
  "hidden n may = (screen n)\<lparr>showable := False, obj_may_continue := may\<rparr>"

text \<open>
  The sequence invariant of the specification: the action list is not empty, there is a
  current action, and the entry at index 0 is its class.
\<close>

definition front_is_current :: "gui \<Rightarrow> bool" where
  "front_is_current s =
     (case (actions s, currentAction s) of
        (a # rest, Some obj) \<Rightarrow> class_of obj = a
      | _ \<Rightarrow> False)"

subsection \<open>The two loops in closed form\<close>

lemma pop_length: "pop i xs = Inr ys \<Longrightarrow> Suc (length ys) = length xs"
  by (auto simp: pop_def split: if_splits)

lemma pop_0_Cons [simp]: "pop 0 (x # xs) = Inr xs"
  by (simp add: pop_def)

lemma instantiateAction_eq:
  "instantiateAction c s =
     (if declines c then None else Some (Instance c),
      s\<lparr>effects := effects s @ [Construct c]\<rparr>)"
  by (simp add: instantiateAction_def declines_def Let_def)

lemma next_loop_Nil: "actions s = [] \<Longrightarrow> next_loop s = Inl (Raised IndexError, s)"
  by (subst next_loop.simps) (simp add: item_def)

lemma next_loop_Cons:
  "actions s = a # rest \<Longrightarrow>
   next_loop s =
     (case dropWhile declines rest of
        [] \<Rightarrow> Inl (Raised IndexError,
                 s\<lparr>actions := [a], effects := effects s @ map Construct rest\<rparr>)
      | c # cs \<Rightarrow> Inr (Instance c,
                 s\<lparr>actions := a # c # cs,
                   effects := effects s @ map Construct (takeWhile declines rest @ [c])\<rparr>))"
proof (induction rest arbitrary: s)
  case Nil
  then show ?case
    by (subst next_loop.simps) (cases s, simp add: item_def)
next
  case (Cons c cs)
  show ?case
  proof (cases "declines c")
    case False
    with Cons.prems show ?thesis
      by (subst next_loop.simps) (cases s, simp add: item_def instantiateAction_eq)
  next
    case True
    let ?s2 = "s\<lparr>effects := effects s @ [Construct c], actions := a # cs\<rparr>"
    have step: "next_loop s = next_loop ?s2"
      using Cons.prems True
      by (subst next_loop.simps) (simp add: item_def instantiateAction_eq pop_def)
    have "actions ?s2 = a # cs" by simp
    note ih = Cons.IH [OF this]
    show ?thesis
    proof (cases "dropWhile declines cs")
      case Nil
      show ?thesis unfolding step ih by (simp add: Nil True)
    next
      case (Cons d ds)
      show ?thesis unfolding step ih by (simp add: Cons True)
    qed
  qed
qed


lemma next_loop_Inr:
  assumes "next_loop s = Inr (n, s2)"
  obtains a rest c cs where "actions s = a # rest" and "dropWhile declines rest = c # cs"
    and "n = Instance c"
    and "s2 = s\<lparr>actions := a # c # cs,
                  effects := effects s @ map Construct (takeWhile declines rest @ [c])\<rparr>"
proof (cases "actions s")
  case Nil
  with assms show ?thesis by (simp add: next_loop_Nil)
next
  case (Cons a rest)
  show ?thesis
  proof (cases "dropWhile declines rest")
    case Nil
    with assms Cons show ?thesis by (simp add: next_loop_Cons [OF Cons])
  next
    case (Cons c cs)
    with assms \<open>actions s = a # rest\<close> that show ?thesis
      by (simp add: next_loop_Cons [OF \<open>actions s = a # rest\<close>])
  qed
qed

lemma run_loop_Some: "currentAction s \<noteq> None \<Longrightarrow> run_loop s = Inr s"
  by (subst run_loop.simps) simp

lemma run_loop_Nil:
  "currentAction s = None \<Longrightarrow> actions s = [] \<Longrightarrow> run_loop s = Inl (Raised IndexError, s)"
  by (subst run_loop.simps) (simp add: item_def)

lemma run_loop_Cons:
  "currentAction s = None \<Longrightarrow> actions s = a # rest \<Longrightarrow>
   run_loop s =
     (case dropWhile declines (a # rest) of
        [] \<Rightarrow> Inl (Returned,
                 s\<lparr>actions := [], effects := effects s @ map Construct (a # rest)\<rparr>)
      | c # cs \<Rightarrow> Inr (s\<lparr>actions := c # cs, currentAction := Some (Instance c),
                   effects := effects s @
                     map Construct (takeWhile declines (a # rest) @ [c])\<rparr>))"
proof (induction rest arbitrary: s a)
  case Nil
  show ?case
  proof (cases "declines a")
    case True
    with Nil show ?thesis
      by (subst run_loop.simps) (cases s, simp add: item_def instantiateAction_eq)
  next
    case False
    with Nil show ?thesis
      by (subst run_loop.simps)
         (cases s, simp add: item_def instantiateAction_eq run_loop_Some)
  qed
next
  case (Cons b rest)
  show ?case
  proof (cases "declines a")
    case False
    with Cons.prems show ?thesis
      by (subst run_loop.simps)
         (cases s, simp add: item_def instantiateAction_eq run_loop_Some)
  next
    case True
    let ?s2 = "s\<lparr>effects := effects s @ [Construct a], currentAction := None,
                 actions := b # rest\<rparr>"
    have step: "run_loop s = run_loop ?s2"
      using Cons.prems True
      by (subst run_loop.simps) (simp add: item_def instantiateAction_eq)
    have "currentAction ?s2 = None" and "actions ?s2 = b # rest" by simp_all
    note ih = Cons.IH [OF this]
    show ?thesis
    proof (cases "dropWhile declines (b # rest)")
      case Nil
      show ?thesis unfolding step ih Nil using Nil True Cons.prems by (cases s) simp
    next
      case (Cons d ds)
      show ?thesis unfolding step ih Cons using Cons True by simp
    qed
  qed
qed


lemma next_loop_eq:
  "next_loop s =
     (case actions s of
        [] \<Rightarrow> Inl (Raised IndexError, s)
      | a # rest \<Rightarrow>
          (case dropWhile declines rest of
             [] \<Rightarrow> Inl (Raised IndexError,
                      s\<lparr>actions := [a], effects := effects s @ map Construct rest\<rparr>)
           | c # cs \<Rightarrow> Inr (Instance c,
                      s\<lparr>actions := a # c # cs,
                        effects := effects s @
                          map Construct (takeWhile declines rest @ [c])\<rparr>)))"
  by (cases "actions s") (simp_all add: next_loop_Nil next_loop_Cons)

lemma run_loop_eq:
  "run_loop s =
     (if currentAction s \<noteq> None then Inr s
      else
        (case actions s of
           [] \<Rightarrow> Inl (Raised IndexError, s)
         | a # rest \<Rightarrow>
             (case dropWhile declines (a # rest) of
                [] \<Rightarrow> Inl (Returned,
                         s\<lparr>actions := [],
                           effects := effects s @ map Construct (a # rest)\<rparr>)
              | c # cs \<Rightarrow> Inr (s\<lparr>actions := c # cs, currentAction := Some (Instance c),
                           effects := effects s @
                             map Construct (takeWhile declines (a # rest) @ [c])\<rparr>))))"
proof (cases "currentAction s \<noteq> None")
  case True
  then show ?thesis by (simp add: run_loop_Some)
next
  case False
  then have n: "currentAction s = None" by simp
  show ?thesis
  proof (cases "actions s")
    case Nil
    with n show ?thesis by (simp add: run_loop_Nil)
  next
    case (Cons a rest)
    with n show ?thesis by (simp only: run_loop_Cons [OF n Cons]) simp
  qed
qed

lemma next_loop_Inl:
  "next_loop s = Inl (out, s') \<Longrightarrow> out = Raised IndexError"
  by (auto simp: next_loop_eq split: list.splits)

lemma run_loop_Inl:
  "run_loop s = Inl (out, s') \<Longrightarrow> out = Raised IndexError \<or> out = Returned"
  by (auto simp: run_loop_eq split: list.splits if_splits)

lemma dropWhile_first:
  "\<forall>x\<in>set pre. P x \<Longrightarrow> \<not> P c \<Longrightarrow> dropWhile P (pre @ c # cs) = c # cs"
  by (induction pre) auto

lemma takeWhile_first:
  "\<forall>x\<in>set pre. P x \<Longrightarrow> \<not> P c \<Longrightarrow> takeWhile P (pre @ c # cs) = pre"
  by (induction pre) auto

lemma run_loop_first:
  assumes "currentAction s = None" and "actions s = pre @ c # cs"
    and "\<forall>x\<in>set pre. declines x" and "\<not> declines c"
  shows "run_loop s =
     Inr (s\<lparr>actions := c # cs, currentAction := Some (Instance c),
            effects := effects s @ map Construct pre @ [Construct c]\<rparr>)"
proof -
  obtain a rest where ar: "pre @ c # cs = a # rest" by (cases pre) auto
  have d: "dropWhile declines (a # rest) = c # cs"
    unfolding ar [symmetric] using assms(3,4) by (rule dropWhile_first)
  have t: "takeWhile declines (a # rest) = pre"
    unfolding ar [symmetric] using assms(3,4) by (rule takeWhile_first)
  from assms(2) ar have "actions s = a # rest" by simp
  from run_loop_Cons [OF assms(1) this] show ?thesis
    by (simp only: d t) simp
qed

lemma find_ndx_eq:
  "ndx \<le> length acts \<Longrightarrow>
   find_ndx target acts ndx =
     (if dropWhile (\<lambda>c. metaclass_name c \<noteq> target) (drop ndx acts) = [] then None
      else Some (ndx + length (takeWhile (\<lambda>c. metaclass_name c \<noteq> target) (drop ndx acts))))"
proof (induction target acts ndx rule: find_ndx.induct)
  case (1 target acts ndx)
  show ?case
  proof (cases "ndx < length acts")
    case False
    with "1.prems" show ?thesis by (subst find_ndx.simps) simp
  next
    case True
    then have d: "drop ndx acts = acts ! ndx # drop (Suc ndx) acts"
      by (simp add: Cons_nth_drop_Suc)
    show ?thesis
    proof (cases "metaclass_name (acts ! ndx) = target")
      case True
      with \<open>ndx < length acts\<close> show ?thesis
        by (subst find_ndx.simps) (simp add: d)
    next
      case False
      from \<open>ndx < length acts\<close> have "Suc ndx \<le> length acts" by simp
      from "1.IH" [OF \<open>ndx < length acts\<close> False this] False \<open>ndx < length acts\<close>
      show ?thesis
        by (subst find_ndx.simps) (simp add: d)
    qed
  qed
qed

lemma find_ndx_past_end: "length acts \<le> ndx \<Longrightarrow> find_ndx target acts ndx = None"
  by (subst find_ndx.simps) simp

lemma skip_to_eq:
  "skip_to cur acts =
     (case skipTo (class_of cur) of
        None \<Rightarrow> acts
      | Some target \<Rightarrow>
          if target = [] then acts
          else
            (case dropWhile (\<lambda>c. metaclass_name c \<noteq> target) (tl acts) of
               [] \<Rightarrow> acts
             | m # after \<Rightarrow> hd acts # m # after))"
proof (cases "skipTo (class_of cur)")
  case None
  then show ?thesis by (simp add: skip_to_def truthy_def)
next
  case (Some target)
  show ?thesis
  proof (cases "target = [] \<or> acts = []")
    case True
    with Some show ?thesis
      by (auto simp: skip_to_def truthy_def find_ndx_past_end)
  next
    case False
    then obtain a rest where acts: "acts = a # rest" by (cases acts) auto
    let ?P = "\<lambda>c. metaclass_name c \<noteq> target"
    have dr: "drop (length (takeWhile ?P rest)) rest = dropWhile ?P rest"
      by (simp add: dropWhile_eq_drop)
    from False have t: "target \<noteq> []" by simp
    show ?thesis
    proof (cases "dropWhile ?P rest")
      case Nil
      show ?thesis
        by (simp add: skip_to_def truthy_def find_ndx_eq Some t acts Nil)
    next
      case (Cons m after)
      show ?thesis
        by (simp add: skip_to_def truthy_def find_ndx_eq Some t acts Cons dr)
    qed
  qed
qed

lemma length_dropWhile_decl: "length (dropWhile P xs) \<le> length xs"
  by (induction xs) auto

lemma next_loop_length:
  assumes "next_loop s = Inr (n, s2)"
  shows "2 \<le> length (actions s2) \<and> length (actions s2) \<le> length (actions s)"
proof -
  from assms obtain a rest c cs where a: "actions s = a # rest"
    and d: "dropWhile declines rest = c # cs"
    and s2: "s2 = s\<lparr>actions := a # c # cs,
                  effects := effects s @ map Construct (takeWhile declines rest @ [c])\<rparr>"
    by (rule next_loop_Inr)
  have "length (dropWhile declines rest) \<le> length rest"
    by (rule length_dropWhile_decl)
  with a d s2 show ?thesis by simp
qed

lemma find_ndx_bounds:
  "find_ndx target acts i = Some ndx \<Longrightarrow> i \<le> ndx \<and> ndx < length acts"
proof (induction target acts i rule: find_ndx.induct)
  case (1 target acts ndx')
  then show ?case
    by (subst (asm) (2) find_ndx.simps) (auto split: if_splits)
qed

lemma length_skip_to: "length (skip_to cur acts) \<le> length acts"
  by (auto simp: skip_to_def split: option.splits dest!: find_ndx_bounds)

lemma continue_clicked_body_length:
  assumes "continue_clicked_body w s = Inr (n, s')"
  shows "length (actions s') < length (actions s)"
proof -
  from assms obtain cur s2 where
    loop: "next_loop (s\<lparr>actions := skip_to cur (actions s)\<rparr>) = Inr (n, s2)"
    and popped: "pop 0 (actions s2) = Inr (actions s')"
    by (auto simp: continue_clicked_body_def Let_def
        split: sum.splits if_splits prod.splits)
  from next_loop_length [OF loop]
  have "length (actions s2) \<le> length (skip_to cur (actions s))"
    by simp
  moreover have "length (skip_to cur (actions s)) \<le> length (actions s)"
    by (rule length_skip_to)
  moreover from pop_length [OF popped] have "length (actions s') < length (actions s2)"
    by simp
  ultimately show ?thesis by simp
qed

text \<open>
  \<open>_on_continue_clicked(win)\<close>: its body, and where the body calls
  \<open>self._on_continue_clicked(nextAction)\<close> the handler again, with the screen object as
  \<open>win\<close>. Each such call is made on a shorter action list.
\<close>

function on_continue_clicked :: "win \<Rightarrow> gui \<Rightarrow> outcome \<times> gui" where
  "on_continue_clicked w s =
     (case continue_clicked_body w s of
        Inl r \<Rightarrow> r
      | Inr (nextAction, s') \<Rightarrow> on_continue_clicked (Action_object nextAction) s')"
  by pat_completeness auto
termination
  by (relation "measure (\<lambda>(w, s). length (actions s))")
     (auto dest: continue_clicked_body_length)

declare on_continue_clicked.simps [simp del]


section \<open>Properties of the payloads service\<close>

lemma create_payloads_appends:
  "create_payloads ts s = (ps, s') \<Longrightarrow>
   created_payloads s' = created_payloads s @ ps \<and> length ps = length ts \<and> map ptype ps = ts"
proof (induction ts arbitrary: s ps s')
  case Nil
  then show ?case by simp
next
  case (Cons t ts)
  obtain p s1 where c: "create_payload t s = (p, s1)" by (cases "create_payload t s")
  obtain qs s2 where r: "create_payloads ts s1 = (qs, s2)" by (cases "create_payloads ts s1")
  from c have p: "ptype p = t" and s1: "created_payloads s1 = created_payloads s @ [p]"
    by (auto simp: create_payload_def add_created_payload_def
        PayloadFactory_create_payload_def Let_def)
  from Cons.prems c r have "ps = p # qs" and "s' = s2" by simp_all
  with Cons.IH [OF r] p s1 show ?case by simp
qed

text \<open>
  Claim C1. A sequence of \<open>create_payload\<close> calls on a fresh service leaves
  \<open>created_payloads\<close> equal to the list of the payloads the calls returned, in call
  order: its length is the number of calls and its types are the requested types, whether or
  not a type repeats. Each single call, in any state, appends the payload it returns at the
  end.
\<close>

theorem C1_created_payloads_in_call_order:
  "created_payloads (snd (create_payloads ts (init_service :: 'd service))) =
     fst (create_payloads ts (init_service :: 'd service))
   \<and> length (created_payloads (snd (create_payloads ts (init_service :: 'd service)))) = length ts
   \<and> map ptype (created_payloads (snd (create_payloads ts (init_service :: 'd service)))) = ts
   \<and> created_payloads (snd (create_payload t (s :: 'd service))) =
       created_payloads s @ [fst (create_payload t s)]
   \<and> ptype (fst (create_payload t s)) = t"
proof -
  obtain ps s' where r: "create_payloads ts (init_service :: 'd service) = (ps, s')"
    by (cases "create_payloads ts (init_service :: 'd service)")
  from create_payloads_appends [OF r] r
  have "created_payloads s' = ps" and "length ps = length ts" and "map ptype ps = ts"
    by (simp_all add: init_service_def)
  with r show ?thesis
    by (simp add: create_payload_def add_created_payload_def
        PayloadFactory_create_payload_def Let_def)
qed

text \<open>
  Claim C3. With an active payload whose type is not \<open>DNF\<close>, \<open>generate_kickstart\<close>
  returns the empty string; with an active payload of type \<open>DNF\<close> it returns what the
  inherited \<open>generate_kickstart\<close> returns.
\<close>

theorem C3_generate_kickstart:
  "(active_payload s = Some p \<and> ptype p \<noteq> DNF \<longrightarrow>
      generate_kickstart super_generate_kickstart s = Inr '''')
   \<and> (active_payload s = Some p \<and> ptype p = DNF \<longrightarrow>
      generate_kickstart super_generate_kickstart s = Inr (super_generate_kickstart s))"
  by (simp add: generate_kickstart_def deref_def)

text \<open>C3 at a live-image payload and at a DNF payload.\<close>

theorem C3_generate_kickstart_witness:
  "generate_kickstart (\<lambda>s. ''%packages'')
     (\<lparr>created_payloads = [], active_payload = Some \<lparr>ident = 0, ptype = Other_type ''LIVE_IMAGE''\<rparr>,
       emitted = [], constructed = 1\<rparr> :: nat service) = Inr ''''
   \<and> generate_kickstart (\<lambda>s. ''%packages'')
     (\<lparr>created_payloads = [], active_payload = Some \<lparr>ident = 0, ptype = DNF\<rparr>,
       emitted = [], constructed = 1\<rparr> :: nat service) = Inr ''%packages''"
  using C3_generate_kickstart [of
      "\<lparr>created_payloads = [], active_payload = Some \<lparr>ident = 0, ptype = Other_type ''LIVE_IMAGE''\<rparr>,
        emitted = [], constructed = 1\<rparr> :: nat service"
      "\<lparr>ident = 0, ptype = Other_type ''LIVE_IMAGE''\<rparr>" "\<lambda>s. ''%packages''"]
    C3_generate_kickstart [of
      "\<lparr>created_payloads = [], active_payload = Some \<lparr>ident = 0, ptype = DNF\<rparr>,
        emitted = [], constructed = 1\<rparr> :: nat service"
      "\<lparr>ident = 0, ptype = DNF\<rparr>" "\<lambda>s. ''%packages''"]
  by simp





text \<open>
  Claim C5, amended. When the factory determines a payload type from the data,
  \<open>process_kickstart\<close> creates a payload of that type (appended to \<open>created_payloads\<close>),
  forwards the same data into that payload, and then activates it, in this order; when no
  type is determined it leaves the service unchanged.
\<close>

theorem C5_process_kickstart:
  "(get_type_for_kickstart data = Some t \<longrightarrow>
      process_kickstart get_type_for_kickstart data s =
        s\<lparr>created_payloads := created_payloads s @ [\<lparr>ident = constructed s, ptype = t\<rparr>],
          active_payload := Some \<lparr>ident = constructed s, ptype = t\<rparr>,
          emitted := emitted s @
            [Created_payloads_changed \<lparr>ident = constructed s, ptype = t\<rparr>,
             Payload_process_kickstart \<lparr>ident = constructed s, ptype = t\<rparr> data,
             Active_payload_changed],
          constructed := Suc (constructed s)\<rparr>)
   \<and> (get_type_for_kickstart data = None \<longrightarrow>
      process_kickstart get_type_for_kickstart data s = s)"
  by (simp add: process_kickstart_def create_payload_def add_created_payload_def
      activate_payload_def PayloadFactory_create_payload_def Let_def)

text \<open>C5 on the fresh service, for data with and without a payload type.\<close>

theorem C5_process_kickstart_witness:
  "process_kickstart live_ks ''liveimg'' init_service =
     \<lparr>created_payloads = [\<lparr>ident = 0, ptype = Other_type ''LIVE_IMAGE''\<rparr>],
      active_payload = Some \<lparr>ident = 0, ptype = Other_type ''LIVE_IMAGE''\<rparr>,
      emitted =
        [Created_payloads_changed \<lparr>ident = 0, ptype = Other_type ''LIVE_IMAGE''\<rparr>,
         Payload_process_kickstart \<lparr>ident = 0, ptype = Other_type ''LIVE_IMAGE''\<rparr> ''liveimg'',
         Active_payload_changed],
      constructed = 1\<rparr>
   \<and> process_kickstart live_ks ''text'' init_service = init_service"
  using C5_process_kickstart [of live_ks "''liveimg''" "Other_type ''LIVE_IMAGE''" init_service]
    C5_process_kickstart [of live_ks "''text''" "Other_type ''LIVE_IMAGE''" init_service]
  by (simp add: live_ks_def init_service_def)

text \<open>
  Claim C5 as stated has the payload activated before the data is forwarded into it. On the
  fresh service the forwarding call comes second and \<open>active_payload_changed\<close> last: the
  activation does not precede the forwarding.
\<close>

theorem C5_activation_follows_forwarding:
  "emitted (process_kickstart live_ks ''liveimg'' init_service) =
     [Created_payloads_changed \<lparr>ident = 0, ptype = Other_type ''LIVE_IMAGE''\<rparr>,
      Payload_process_kickstart \<lparr>ident = 0, ptype = Other_type ''LIVE_IMAGE''\<rparr> ''liveimg'',
      Active_payload_changed]
   \<and> \<not> precedes Active_payload_changed
        (Payload_process_kickstart \<lparr>ident = 0, ptype = Other_type ''LIVE_IMAGE''\<rparr> ''liveimg'')
        (emitted (process_kickstart live_ks ''liveimg'' init_service))
   \<and> precedes
        (Payload_process_kickstart \<lparr>ident = 0, ptype = Other_type ''LIVE_IMAGE''\<rparr> ''liveimg'')
        Active_payload_changed
        (emitted (process_kickstart live_ks ''liveimg'' init_service))"
  by (simp add: process_kickstart_def create_payload_def add_created_payload_def
      activate_payload_def PayloadFactory_create_payload_def Let_def live_ks_def
      init_service_def precedes_def)


section \<open>Properties of the sequencer\<close>

text \<open>The equations that evaluate the handler on a given state.\<close>

lemmas eval_defs = continue_clicked_body_def get_may_continue_def deref_def skip_to_eq
  next_loop_eq declines_def screen_def showing_def not_started_def Let_def

text \<open>
  Claim C6. When \<open>run\<close> starts the sequencer (Gtk initialised, no main loop running, no
  current action yet) on an action list whose first entries \<open>pre\<close> all refuse instantiation
  and whose next entry \<open>c\<close> does not, it constructs and drops each entry of \<open>pre\<close>,
  constructs \<open>c\<close>, and the object of \<open>c\<close> becomes the current action and the screen the
  main window displays; the list is left as \<open>c\<close> and what follows it.
\<close>

theorem C6_run_starts_on_first_instantiable:
  assumes "init_check g" and "main_level g = 0" and "currentAction s = None"
    and "actions s = pre @ c # cs" and "\<forall>x\<in>set pre. declines x" and "\<not> declines c"
  shows "run g s =
     (Main_loop,
      s\<lparr>actions := c # cs,
        currentAction := Some (Instance c),
        main_window_current := Some (Instance c),
        effects := effects s @ map Construct pre @
          [Construct c, Initialize (Instance c), Entry_logger (Instance c),
           Refresh (Instance c), Set_current_action (Instance c), Gtk_main]\<rparr>)"
  using assms(1,2) run_loop_first [OF assms(3-6)]
  by (simp add: run_def deref_def)

text \<open>C6 on the list \<open>[A, B, C]\<close> where \<open>A\<close> is already completed: the sequencer starts on
  \<open>B\<close>.\<close>

theorem C6_run_starts_on_first_instantiable_witness:
  "run gtk_ready (not_started [(screen ''A'')\<lparr>completed := True\<rparr>, screen ''B'', screen ''C'']) =
     (Main_loop,
      \<lparr>actions = [screen ''B'', screen ''C''],
       currentAction = Some (Instance (screen ''B'')),
       main_window_current = Some (Instance (screen ''B'')),
       effects =
         [Construct ((screen ''A'')\<lparr>completed := True\<rparr>), Construct (screen ''B''),
          Initialize (Instance (screen ''B'')), Entry_logger (Instance (screen ''B'')),
          Refresh (Instance (screen ''B'')), Set_current_action (Instance (screen ''B'')),
          Gtk_main]\<rparr>)"
  using C6_run_starts_on_first_instantiable [of gtk_ready
      "not_started [(screen ''A'')\<lparr>completed := True\<rparr>, screen ''B'', screen ''C'']"
      "[(screen ''A'')\<lparr>completed := True\<rparr>]" "screen ''B''" "[screen ''C'']"]
  by (simp add: gtk_ready_def not_started_def declines_def screen_def)


subsection \<open>The exhausted action list\<close>

text \<open>
  At the start, a list that is not empty and whose entries all refuse instantiation is
  consumed and \<open>run\<close> returns silently.
\<close>

lemma run_all_decline:
  assumes "init_check g" and "main_level g = 0" and "currentAction s = None"
    and "actions s \<noteq> []" and "\<forall>x\<in>set (actions s). declines x"
  shows "run g s =
     (Returned, s\<lparr>actions := [], effects := effects s @ map Construct (actions s)\<rparr>)"
proof -
  from assms(4) obtain a rest where ar: "actions s = a # rest" by (cases "actions s") auto
  from assms(5) ar have "dropWhile declines (a # rest) = []" by simp
  with run_loop_Cons [OF assms(3) ar] ar
  have "run_loop s =
      Inl (Returned, s\<lparr>actions := [], effects := effects s @ map Construct (actions s)\<rparr>)"
    by simp
  with assms(1,2) show ?thesis by (simp add: run_def)
qed

text \<open>
  The continue handler never reaches \<open>sys.exit(0)\<close>: its search pops index 1 only, so the
  list it tests is never empty.
\<close>

lemma continue_clicked_body_never_exits:
  "continue_clicked_body w s = Inl (out, s') \<Longrightarrow> out \<noteq> Sys_exit"
  by (auto simp: continue_clicked_body_def Let_def
      split: sum.splits if_splits prod.splits dest: next_loop_Inl)

lemma on_continue_clicked_never_exits:
  "on_continue_clicked w s = (out, s') \<Longrightarrow> out \<noteq> Sys_exit"
proof (induction w s rule: on_continue_clicked.induct)
  case (1 w s)
  show ?case
  proof (cases "continue_clicked_body w s")
    case (Inl r)
    with "1.prems" have "continue_clicked_body w s = Inl (out, s')"
      by (subst (asm) on_continue_clicked.simps) simp
    then show ?thesis by (rule continue_clicked_body_never_exits)
  next
    case (Inr p)
    obtain n s1 where p: "p = (n, s1)" by (cases p)
    with Inr "1.prems" have "on_continue_clicked (Action_object n) s1 = (out, s')"
      by (subst (asm) on_continue_clicked.simps) simp
    from "1.IH" [OF Inr p [symmetric] this] show ?thesis .
  qed
qed

text \<open>
  Claim C7 at its failing inputs. \<open>run\<close> on an empty action list reads \<open>self._actions[0]\<close>
  before it tests the list and ends in \<open>IndexError\<close>. A continue on \<open>[A, B]\<close>, where \<open>B\<close>
  is already completed, pops \<open>B\<close>; the list \<open>[A]\<close> is not empty, so the test before
  \<open>sys.exit(0)\<close> fails, the loop reads \<open>self._actions[1]\<close> and ends in \<open>IndexError\<close>.
\<close>

theorem C7_exhausted_list_raises_IndexError:
  "run gtk_ready (not_started []) = (Raised IndexError, not_started [])
   \<and> on_continue_clicked (Window True)
         (showing (screen ''A'') [(screen ''B'')\<lparr>completed := True\<rparr>]) =
       (Raised IndexError,
        \<lparr>actions = [screen ''A''], currentAction = Some (Instance (screen ''A'')),
         main_window_current = Some (Instance (screen ''A'')),
         effects = [Construct ((screen ''B'')\<lparr>completed := True\<rparr>)]\<rparr>)"
proof
  show "run gtk_ready (not_started []) = (Raised IndexError, not_started [])"
    by (simp add: run_def gtk_ready_def not_started_def run_loop_eq)
next
  show "on_continue_clicked (Window True)
         (showing (screen ''A'') [(screen ''B'')\<lparr>completed := True\<rparr>]) =
       (Raised IndexError,
        \<lparr>actions = [screen ''A''], currentAction = Some (Instance (screen ''A'')),
         main_window_current = Some (Instance (screen ''A'')),
         effects = [Construct ((screen ''B'')\<lparr>completed := True\<rparr>)]\<rparr>)"
    by (subst on_continue_clicked.simps) (simp add: eval_defs)
qed

text \<open>
  Claim C2 at its failing input. On \<open>[A, B, C]\<close>, three ordinary classes, with
  \<open>skipTo = "C"\<close> on the current action \<open>A\<close>, the scan compares \<open>"C"\<close> with the name of
  each entry's own class, \<open>"type"\<close>, finds nothing and leaves the list as it is; the
  handler advances to \<open>B\<close>.
\<close>

theorem C2_skip_to_compares_metaclass_name:
  "skip_to (Instance ((screen ''A'')\<lparr>skipTo := Some ''C''\<rparr>))
     [(screen ''A'')\<lparr>skipTo := Some ''C''\<rparr>, screen ''B'', screen ''C''] =
     [(screen ''A'')\<lparr>skipTo := Some ''C''\<rparr>, screen ''B'', screen ''C'']
   \<and> on_continue_clicked (Window True)
         (showing ((screen ''A'')\<lparr>skipTo := Some ''C''\<rparr>) [screen ''B'', screen ''C'']) =
       (Advanced,
        \<lparr>actions = [screen ''B'', screen ''C''],
         currentAction = Some (Instance (screen ''B'')),
         main_window_current = Some (Instance (screen ''B'')),
         effects =
           [Construct (screen ''B''), Initialize (Instance (screen ''B'')),
            Exit_logger (Instance ((screen ''A'')\<lparr>skipTo := Some ''C''\<rparr>)),
            Entry_logger (Instance (screen ''B'')), Refresh (Instance (screen ''B'')),
            Set_current_action (Instance (screen ''B''))]\<rparr>)"
proof
  show "skip_to (Instance ((screen ''A'')\<lparr>skipTo := Some ''C''\<rparr>))
     [(screen ''A'')\<lparr>skipTo := Some ''C''\<rparr>, screen ''B'', screen ''C''] =
     [(screen ''A'')\<lparr>skipTo := Some ''C''\<rparr>, screen ''B'', screen ''C'']"
    by (simp add: skip_to_eq screen_def)
next
  show "on_continue_clicked (Window True)
         (showing ((screen ''A'')\<lparr>skipTo := Some ''C''\<rparr>) [screen ''B'', screen ''C'']) =
       (Advanced,
        \<lparr>actions = [screen ''B'', screen ''C''],
         currentAction = Some (Instance (screen ''B'')),
         main_window_current = Some (Instance (screen ''B'')),
         effects =
           [Construct (screen ''B''), Initialize (Instance (screen ''B'')),
            Exit_logger (Instance ((screen ''A'')\<lparr>skipTo := Some ''C''\<rparr>)),
            Entry_logger (Instance (screen ''B'')), Refresh (Instance (screen ''B'')),
            Set_current_action (Instance (screen ''B''))]\<rparr>)"
    by (subst on_continue_clicked.simps) (simp add: eval_defs)
qed


text \<open>
  Claim C8, amended. A continue signal from a window that may continue, with exactly one
  action in the list, ends the sequencer with \<open>Gtk.main_quit()\<close>: nothing else happens, in
  particular no screen is constructed. A continue signal from a window that may not
  continue is ignored, whatever the list.
\<close>

theorem C8_last_action_quits:
  "(get_may_continue w = Inr True \<and> length (actions s) = 1 \<longrightarrow>
      on_continue_clicked w s = (Main_quit, s\<lparr>effects := effects s @ [Gtk_main_quit]\<rparr>))
   \<and> (get_may_continue w = Inr False \<longrightarrow> on_continue_clicked w s = (Ignored, s))"
  by (subst on_continue_clicked.simps, subst on_continue_clicked.simps)
     (simp add: continue_clicked_body_def)

theorem C8_last_action_quits_witness:
  "on_continue_clicked (Window True) (showing (screen ''A'') []) =
     (Main_quit, (showing (screen ''A'') [])\<lparr>effects := [Gtk_main_quit]\<rparr>)
   \<and> on_continue_clicked (Window False) (showing (screen ''A'') []) =
     (Ignored, showing (screen ''A'') [])"
  using C8_last_action_quits [of "Window True" "showing (screen ''A'') []"]
    C8_last_action_quits [of "Window False" "showing (screen ''A'') []"]
  by (simp add: get_may_continue_def showing_def)


text \<open>
  Claim C8 as stated does not ask whether the window may continue. With one action left
  and a window that may not continue, the handler returns without quitting.
\<close>

theorem C8_continue_ignored_on_last_action:
  "on_continue_clicked (Window False) (showing (screen ''A'') []) =
     (Ignored, showing (screen ''A'') [])
   \<and> fst (on_continue_clicked (Window False) (showing (screen ''A'') [])) \<noteq> Main_quit"
  by (subst on_continue_clicked.simps, subst on_continue_clicked.simps) (simp add: eval_defs)

subsection \<open>What a continue leaves of the action list\<close>

lemma skip_to_tl: "\<exists>j. tl (skip_to cur acts) = drop (Suc j) acts"
proof (cases "skip_to cur acts = acts")
  case True
  have "tl acts = drop (Suc 0) acts" by (simp add: drop_Suc)
  with True show ?thesis by metis
next
  case False
  then obtain target m after where
    found: "dropWhile (\<lambda>c. metaclass_name c \<noteq> target) (tl acts) = m # after"
    and sk: "skip_to cur acts = hd acts # m # after"
    by (auto simp: skip_to_eq split: option.splits if_splits list.splits)
  let ?P = "\<lambda>c. metaclass_name c \<noteq> target"
  have "m # after = drop (length (takeWhile ?P (tl acts))) (tl acts)"
    using found by (simp add: dropWhile_eq_drop)
  also have "\<dots> = drop (Suc (length (takeWhile ?P (tl acts)))) acts"
    by (simp add: drop_Suc)
  finally show ?thesis using sk by auto
qed

lemma continue_clicked_body_Inr:
  assumes "continue_clicked_body w s = Inr (n, s1)"
  obtains cur s2 where "currentAction s = Some cur"
    and "next_loop (s\<lparr>actions := skip_to cur (actions s)\<rparr>) = Inr (n, s2)"
    and "pop 0 (actions s2) = Inr (actions s1)"
  using assms
  by (auto simp: continue_clicked_body_def Let_def deref_def
      split: sum.splits if_splits prod.splits option.splits)

lemma continue_clicked_body_Inl_Advanced:
  assumes "continue_clicked_body w s = Inl (Advanced, s1)"
  obtains cur n s2 where "currentAction s = Some cur"
    and "next_loop (s\<lparr>actions := skip_to cur (actions s)\<rparr>) = Inr (n, s2)"
    and "pop 0 (actions s2) = Inr (actions s1)"
    and "currentAction s1 = Some n" and "main_window_current s1 = Some n"
  using assms
  by (auto simp: continue_clicked_body_def Let_def deref_def
      split: sum.splits if_splits prod.splits option.splits
      dest: next_loop_Inl)

lemma after_next_loop_drop:
  assumes loop: "next_loop (s\<lparr>actions := skip_to cur (actions s)\<rparr>) = Inr (n, s2)"
    and popped: "pop 0 (actions s2) = Inr acts1"
  shows "(\<exists>k>0. acts1 = drop k (actions s)) \<and> (\<exists>rest. acts1 = class_of n # rest)"
proof -
  from loop obtain a rest c cs where
    ar: "skip_to cur (actions s) = a # rest"
    and d: "dropWhile declines rest = c # cs"
    and n: "n = Instance c"
    and s2: "actions s2 = a # c # cs"
    by (rule next_loop_Inr) simp
  from popped s2 have s1: "acts1 = c # cs" by simp
  obtain j where "tl (skip_to cur (actions s)) = drop (Suc j) (actions s)"
    using skip_to_tl by blast
  with ar have rest: "rest = drop (Suc j) (actions s)" by simp
  have "c # cs = drop (length (takeWhile declines rest)) rest"
    using d by (simp add: dropWhile_eq_drop)
  also have "\<dots> = drop (length (takeWhile declines rest) + Suc j) (actions s)"
    by (simp add: rest)
  finally have "acts1 = drop (length (takeWhile declines rest) + Suc j) (actions s)"
    using s1 by simp
  then have "\<exists>k>0. acts1 = drop k (actions s)"
    by (intro exI [of _ "length (takeWhile declines rest) + Suc j"]) simp
  with s1 n show ?thesis by simp
qed

lemma continue_clicked_body_Inr_drop:
  assumes "continue_clicked_body w s = Inr (n, s1)"
  shows "\<exists>k>0. actions s1 = drop k (actions s)"
proof -
  from assms obtain cur s2 where
    "next_loop (s\<lparr>actions := skip_to cur (actions s)\<rparr>) = Inr (n, s2)"
    and "pop 0 (actions s2) = Inr (actions s1)"
    by (rule continue_clicked_body_Inr)
  from after_next_loop_drop [OF this] show ?thesis by simp
qed

lemma continue_clicked_body_Advanced:
  assumes "continue_clicked_body w s = Inl (Advanced, s1)"
  shows "front_is_current s1 \<and> main_window_current s1 = currentAction s1 \<and>
         (\<exists>k>0. actions s1 = drop k (actions s))"
proof -
  from assms obtain cur n s2 where
    loop: "next_loop (s\<lparr>actions := skip_to cur (actions s)\<rparr>) = Inr (n, s2)"
    and popped: "pop 0 (actions s2) = Inr (actions s1)"
    and cur: "currentAction s1 = Some n" and mw: "main_window_current s1 = Some n"
    by (rule continue_clicked_body_Inl_Advanced)
  from after_next_loop_drop [OF loop popped] cur mw show ?thesis
    by (auto simp: front_is_current_def)
qed

lemma on_continue_clicked_Advanced:
  "on_continue_clicked w s = (Advanced, s') \<Longrightarrow>
   front_is_current s' \<and> main_window_current s' = currentAction s' \<and>
   (\<exists>k>0. actions s' = drop k (actions s))"
proof (induction w s rule: on_continue_clicked.induct)
  case (1 w s)
  show ?case
  proof (cases "continue_clicked_body w s")
    case (Inl r)
    with "1.prems" have b: "continue_clicked_body w s = Inl (Advanced, s')"
      by (subst (asm) on_continue_clicked.simps) simp
    from continue_clicked_body_Advanced [OF b]
    show ?thesis by simp
  next
    case (Inr p)
    obtain n s1 where p: "p = (n, s1)" by (cases p)
    with Inr have b: "continue_clicked_body w s = Inr (n, s1)" by simp
    with "1.prems" have r: "on_continue_clicked (Action_object n) s1 = (Advanced, s')"
      by (subst (asm) on_continue_clicked.simps) simp
    from "1.IH" [OF Inr p [symmetric] r]
    obtain k where fr: "front_is_current s'" "main_window_current s' = currentAction s'"
      and k: "0 < k" "actions s' = drop k (actions s1)" by blast
    from continue_clicked_body_Inr_drop [OF b]
    obtain k1 where k1: "0 < k1" "actions s1 = drop k1 (actions s)" by auto
    from k k1 have "0 < k + k1 \<and> actions s' = drop (k + k1) (actions s)" by simp
    with fr show ?thesis by blast
  qed
qed

text \<open>
  Every transition that ends with a screen displayed leaves the class of the current action
  at index 0 of the action list, and the main window displays the current action: the
  start of the sequencer, and every continue that advances. After a continue that
  advances, the action list is what remains of the old list from some position \<open>k > 0\<close>
  on. A continue from a window that may not continue changes nothing.
\<close>

lemma front_is_current_after_display:
  "(currentAction s = None \<and> run g s = (Main_loop, s') \<longrightarrow>
      front_is_current s' \<and> main_window_current s' = currentAction s')
   \<and> (on_continue_clicked w s = (Advanced, s') \<longrightarrow>
      front_is_current s' \<and> main_window_current s' = currentAction s' \<and>
      (\<exists>k>0. actions s' = drop k (actions s)))
   \<and> on_continue_clicked (Window False) s = (Ignored, s)"
proof (intro conjI impI)
  assume a: "currentAction s = None \<and> run g s = (Main_loop, s')"
  then have n: "currentAction s = None" and r: "run g s = (Main_loop, s')" by simp_all
  from r obtain s1 cur where l: "run_loop s = Inr s1" and c: "currentAction s1 = Some cur"
    and s': "s' = s1\<lparr>main_window_current := Some cur,
                     effects := effects s1 @
                        [Initialize cur, Entry_logger cur, Refresh cur,
                         Set_current_action cur, Gtk_main]\<rparr>"
    by (auto simp: run_def deref_def split: if_splits sum.splits option.splits
        dest: run_loop_Inl)
  from l n obtain c' cs where "actions s1 = c' # cs" "currentAction s1 = Some (Instance c')"
    by (auto simp: run_loop_eq split: list.splits)
  with c s' show "front_is_current s'" by (auto simp: front_is_current_def)
  from c s' show "main_window_current s' = currentAction s'" by simp
next
  assume "on_continue_clicked w s = (Advanced, s')"
  from on_continue_clicked_Advanced [OF this]
  show "front_is_current s'" "main_window_current s' = currentAction s'"
    "\<exists>k>0. actions s' = drop k (actions s)" by simp_all
next
  show "on_continue_clicked (Window False) s = (Ignored, s)"
    by (subst on_continue_clicked.simps)
       (simp add: continue_clicked_body_def get_may_continue_def)
qed

text \<open>
  Within one call of the handler, every way it ends other than by calling itself keeps the
  class of the current action at index 0: the refused continue, the quit on the last
  action, the errors, and the advance. The invariant can only be lost through the call the
  handler makes of itself for a candidate that is not showable.
\<close>

lemma skip_to_front:
  "acts \<noteq> [] \<Longrightarrow> skip_to cur acts \<noteq> [] \<and> hd (skip_to cur acts) = hd acts"
  by (auto simp: skip_to_eq split: option.splits list.splits)

lemma next_loop_Inl_front:
  assumes "next_loop s = Inl (out, s')" and "front_is_current s"
  shows "front_is_current s'"
proof -
  from assms(2) obtain a rest where ar: "actions s = a # rest"
    and cur: "currentAction s = Some (Instance a)"
    by (cases "actions s"; cases "currentAction s")
       (auto simp: front_is_current_def intro: action_obj.expand)
  from assms(1) ar have "s' = s\<lparr>actions := [a], effects := effects s @ map Construct rest\<rparr>"
    by (cases "dropWhile declines rest") (simp_all add: next_loop_Cons [OF ar])
  with cur show ?thesis by (simp add: front_is_current_def)
qed

lemma continue_clicked_body_preserves_front:
  assumes "continue_clicked_body w s = Inl (out, s')" and "front_is_current s"
  shows "front_is_current s'"
proof (cases "out = Advanced")
  case True
  with assms(1) show ?thesis by (simp add: continue_clicked_body_Advanced)
next
  case False
  from assms(2) obtain cur where cur: "currentAction s = Some cur" and ne: "actions s \<noteq> []"
    and hd: "class_of cur = hd (actions s)"
    by (cases "actions s"; cases "currentAction s") (auto simp: front_is_current_def)
  let ?s1 = "s\<lparr>actions := skip_to cur (actions s)\<rparr>"
  from skip_to_front [OF ne, of cur] cur hd have f1: "front_is_current ?s1"
    by (cases "skip_to cur (actions s)") (auto simp: front_is_current_def)
  have popped: "pop 0 (actions s2) \<noteq> Inl e" if "next_loop ?s1 = Inr (n, s2)" for n s2 e
    using next_loop_length [OF that] by (cases "actions s2") auto
  from assms(1) False cur
  have "s' = s \<or> s' = s\<lparr>effects := effects s @ [Gtk_main_quit]\<rparr> \<or>
        next_loop ?s1 = Inl (out, s')"
    by (auto simp: continue_clicked_body_def Let_def deref_def popped
        split: sum.splits if_splits prod.splits)
  then show ?thesis
  proof (elim disjE)
    assume "s' = s"
    with assms(2) show ?thesis by simp
  next
    assume "s' = s\<lparr>effects := effects s @ [Gtk_main_quit]\<rparr>"
    with assms(2) show ?thesis by (simp add: front_is_current_def)
  next
    assume "next_loop ?s1 = Inl (out, s')"
    from next_loop_Inl_front [OF this f1] show ?thesis .
  qed
qed

text \<open>
  Claim C9 at its failing input. A continue from \<open>A\<close> on \<open>[A, B]\<close>, where \<open>B\<close> is an
  ordinary screen that is not showable, starts with \<open>A\<close> current and at index 0. The
  handler hides \<open>A\<close>, pops it without assigning \<open>_currentAction\<close> (the showable path
  assigns it before its pop), and calls itself with the object of \<open>B\<close> where the window
  is expected; \<open>win.get_may_continue()\<close> then raises \<open>AttributeError\<close>. The handler ends
  with the class of \<open>B\<close> at index 0 and \<open>A\<close> still the current action.
\<close>

theorem C9_hidden_candidate_breaks_front_is_current:
  "front_is_current (showing (screen ''A'') [hidden ''B'' None])
   \<and> on_continue_clicked (Window True) (showing (screen ''A'') [hidden ''B'' None]) =
       (Raised AttributeError,
        \<lparr>actions = [hidden ''B'' None],
         currentAction = Some (Instance (screen ''A'')),
         main_window_current = Some (Instance (screen ''A'')),
         effects =
           [Construct (hidden ''B'' None), Initialize (Instance (hidden ''B'' None)),
            Hide_window (Instance (screen ''A''))]\<rparr>)
   \<and> \<not> front_is_current
        (snd (on_continue_clicked (Window True) (showing (screen ''A'') [hidden ''B'' None])))"
  by (simp add: on_continue_clicked.simps eval_defs hidden_def front_is_current_def)

text \<open>
  The same happens when the screen object does answer \<open>get_may_continue()\<close>: with false
  the call is refused, with true it quits on the last action, and either way index 0 is
  no longer the class of the current action.
\<close>

lemma hidden_candidate_answering_may_continue:
  "on_continue_clicked (Window True) (showing (screen ''A'') [hidden ''B'' (Some False)]) =
       (Ignored,
        \<lparr>actions = [hidden ''B'' (Some False)],
         currentAction = Some (Instance (screen ''A'')),
         main_window_current = Some (Instance (screen ''A'')),
         effects =
           [Construct (hidden ''B'' (Some False)),
            Initialize (Instance (hidden ''B'' (Some False))),
            Hide_window (Instance (screen ''A''))]\<rparr>)
   \<and> \<not> front_is_current
        (snd (on_continue_clicked (Window True)
           (showing (screen ''A'') [hidden ''B'' (Some False)])))
   \<and> on_continue_clicked (Window True) (showing (screen ''A'') [hidden ''B'' (Some True)]) =
       (Main_quit,
        \<lparr>actions = [hidden ''B'' (Some True)],
         currentAction = Some (Instance (screen ''A'')),
         main_window_current = Some (Instance (screen ''A'')),
         effects =
           [Construct (hidden ''B'' (Some True)),
            Initialize (Instance (hidden ''B'' (Some True))),
            Hide_window (Instance (screen ''A'')), Gtk_main_quit]\<rparr>)
   \<and> \<not> front_is_current
        (snd (on_continue_clicked (Window True)
           (showing (screen ''A'') [hidden ''B'' (Some True)])))"
  by (simp add: on_continue_clicked.simps eval_defs hidden_def front_is_current_def)

subsection \<open>A candidate that is not showable\<close>

lemma next_loop_first:
  assumes "actions s = a # pre @ c # cs" and "\<forall>x\<in>set pre. declines x" and "\<not> declines c"
  shows "next_loop s =
     Inr (Instance c,
          s\<lparr>actions := a # c # cs, effects := effects s @ map Construct pre @ [Construct c]\<rparr>)"
proof -
  have d: "dropWhile declines (pre @ c # cs) = c # cs"
    using assms(2,3) by (rule dropWhile_first)
  have t: "takeWhile declines (pre @ c # cs) = pre"
    using assms(2,3) by (rule takeWhile_first)
  from next_loop_Cons [OF assms(1)] show ?thesis
    by (simp only: d t) simp
qed

text \<open>
  The call the handler makes of itself. Take a continue signal from a window that may
  continue, with an action list of length other than one and a current action \<open>cur\<close>. Let
  the list after the skip-to block be \<open>a\<close>, then entries \<open>pre\<close> that all refuse
  instantiation, then the candidate \<open>c\<close>, which does not, then \<open>cs\<close>. If \<open>c\<close> is not
  showable, the handler constructs the entries of \<open>pre\<close> and \<open>c\<close>, initializes the object
  of \<open>c\<close>, hides the window of \<open>cur\<close>, and is the handler called with the object of \<open>c\<close>
  in the place of the window, on the list \<open>c # cs\<close>, with \<open>cur\<close> still the current action.
\<close>

lemma not_showable_candidate_call:
  assumes "get_may_continue w = Inr True" and "length (actions s) \<noteq> 1"
    and "currentAction s = Some cur"
    and "skip_to cur (actions s) = a # pre @ c # cs"
    and "\<forall>x\<in>set pre. declines x" and "\<not> declines c" and "\<not> showable c"
  shows "on_continue_clicked w s =
     on_continue_clicked (Action_object (Instance c))
       \<lparr>actions = c # cs,
        currentAction = Some cur,
        main_window_current = main_window_current s,
        effects = effects s @ map Construct pre @
          [Construct c, Initialize (Instance c), Hide_window cur]\<rparr>"
proof -
  let ?s1 = "s\<lparr>actions := skip_to cur (actions s)\<rparr>"
  from assms(4) have "actions ?s1 = a # pre @ c # cs" by simp
  from next_loop_first [OF this assms(5,6)]
  have loop: "next_loop ?s1 =
      Inr (Instance c,
           ?s1\<lparr>actions := a # c # cs,
                effects := effects ?s1 @ map Construct pre @ [Construct c]\<rparr>)" .
  have "continue_clicked_body w s =
      Inr (Instance c,
           s\<lparr>actions := c # cs,
             effects := effects s @ map Construct pre @
               [Construct c, Initialize (Instance c), Hide_window cur]\<rparr>)"
    using assms(1,2,3,7)
    by (simp add: continue_clicked_body_def deref_def loop Let_def)
  moreover have "s\<lparr>actions := c # cs,
             effects := effects s @ map Construct pre @
               [Construct c, Initialize (Instance c), Hide_window cur]\<rparr> =
      \<lparr>actions = c # cs,
       currentAction = Some cur,
       main_window_current = main_window_current s,
       effects = effects s @ map Construct pre @
         [Construct c, Initialize (Instance c), Hide_window cur]\<rparr>"
    using assms(3) by (cases s) simp
  ultimately show ?thesis
    by (subst on_continue_clicked.simps) simp
qed

text \<open>
  For a candidate whose object has no \<open>get_may_continue\<close> of its own (\<open>GUIObject\<close>
  defines none), that call ends at once: the handler was connected to the window of a
  screen, reads \<open>win.get_may_continue()\<close> first, and is given the screen object instead.
\<close>

lemma not_showable_candidate_raises:
  assumes "get_may_continue w = Inr True" and "length (actions s) \<noteq> 1"
    and "currentAction s = Some cur"
    and "skip_to cur (actions s) = a # pre @ c # cs"
    and "\<forall>x\<in>set pre. declines x" and "\<not> declines c" and "\<not> showable c"
    and "obj_may_continue c = None"
  shows "on_continue_clicked w s =
     (Raised AttributeError,
      \<lparr>actions = c # cs,
       currentAction = Some cur,
       main_window_current = main_window_current s,
       effects = effects s @ map Construct pre @
         [Construct c, Initialize (Instance c), Hide_window cur]\<rparr>)"
  unfolding not_showable_candidate_call [OF assms(1-7)]
  using assms(8)
  by (subst on_continue_clicked.simps)
     (simp add: continue_clicked_body_def get_may_continue_def)

text \<open>
  Claim C10 at its failing input. A continue from \<open>A\<close> on \<open>[A, B, C]\<close>, where \<open>B\<close> is an
  ordinary screen that is not showable: the handler constructs and initializes \<open>B\<close>, hides
  the window of \<open>A\<close>, pops \<open>A\<close> and calls itself with the object of \<open>B\<close>; the call raises
  \<open>AttributeError\<close> before anything else, and \<open>B\<close> has not become the current action.
\<close>

theorem C10_not_showable_candidate_raises_AttributeError:
  "on_continue_clicked (Window True)
     (showing (screen ''A'') [hidden ''B'' None, screen ''C'']) =
     (Raised AttributeError,
      \<lparr>actions = [hidden ''B'' None, screen ''C''],
       currentAction = Some (Instance (screen ''A'')),
       main_window_current = Some (Instance (screen ''A'')),
       effects =
         [Construct (hidden ''B'' None), Initialize (Instance (hidden ''B'' None)),
          Hide_window (Instance (screen ''A''))]\<rparr>)
   \<and> currentAction (snd (on_continue_clicked (Window True)
        (showing (screen ''A'') [hidden ''B'' None, screen ''C'']))) \<noteq>
       Some (Instance (hidden ''B'' None))"
  by (simp add: on_continue_clicked.simps eval_defs hidden_def)

end
